theory Spec2Isabelle
  imports Complex_Main "HOL-Library.Multiset" "HOL-Library.Product_Lexorder"
begin

section \<open>Frequent itemsets and association rules (question_2.py)\<close>

text \<open>
  The embedding follows \<^verbatim>\<open>src/question_2.py\<close> function by function.

  \<^item> An item is a value of a linearly ordered type (the source compares and sorts
    strings).
  \<^item> A Python \<^verbatim>\<open>set\<close> that the code iterates over is the list of its elements in
    iteration order; such a list is \<open>distinct\<close>. The order is left arbitrary: no
    theorem below depends on it. A set that is only tested for membership is read
    through \<open>set\<close>. The transactions are sets (\<^verbatim>\<open>load_transactions\<close> builds each with
    \<^verbatim>\<open>set(line.split())\<close>), so the theorems about counts assume that every transaction
    is \<open>distinct\<close>.
  \<^item> A \<^verbatim>\<open>defaultdict(int)\<close> is an association list in insertion order; reading a
    missing key gives 0 (\<open>getitem\<close>), and \<^verbatim>\<open>d[k] += 1\<close> is \<open>incr\<close>.
  \<^item> Python's unbounded integers are \<open>int\<close>.
  \<^item> The module globals \<^verbatim>\<open>MIN_SUPPORT\<close> and \<^verbatim>\<open>TOP_K\<close> are read by the functions
    when they run; they are passed explicitly as a \<open>config\<close>, and \<open>module_config\<close>
    holds the values the module assigns.
  \<^item> The quotient \<^verbatim>\<open>sup / item_sup[a]\<close> is modelled as an exact rational (Python
    rounds it to a float; rounding keeps the order of the quotients but can merge two
    that are very close); a zero denominator raises \<^verbatim>\<open>ZeroDivisionError\<close>, which is the
    only exception the modelled functions can raise.
  \<^item> Reading a missing key of a \<^verbatim>\<open>defaultdict\<close> also stores the default under that key;
    every later read of that key gives the same 0, so the model leaves the mapping
    unchanged.
\<close>

subsection \<open>Configuration and errors\<close>

record config =
  MIN_SUPPORT :: int
  TOP_K :: int

definition module_config :: config where
  "module_config = \<lparr>MIN_SUPPORT = 100, TOP_K = 5\<rparr>"

datatype error = ZeroDivisionError

subsection \<open>Python primitives used by the source\<close>

type_synonym 'k counter = "('k \<times> int) list"

text \<open>\<^verbatim>\<open>d[k] += 1\<close> on a \<^verbatim>\<open>defaultdict(int)\<close>: a new key is appended with count 1.\<close>

fun incr :: "'k \<Rightarrow> 'k counter \<Rightarrow> 'k counter" where
  "incr k [] = [(k, 1)]"
| "incr k ((k', c) # d) = (if k' = k then (k', c + 1) # d else (k', c) # incr k d)"

text \<open>\<^verbatim>\<open>d[k]\<close> on a \<^verbatim>\<open>defaultdict(int)\<close>: a missing key reads as 0.\<close>

definition getitem :: "'k counter \<Rightarrow> 'k \<Rightarrow> int" where
  "getitem d k = (case map_of d k of None \<Rightarrow> 0 | Some c \<Rightarrow> c)"

text \<open>\<^verbatim>\<open>s.add(x)\<close> on a set.\<close>

definition set_add :: "'a \<Rightarrow> 'a list \<Rightarrow> 'a list" where
  "set_add x s = (if x \<in> set s then s else s @ [x])"

text \<open>\<^verbatim>\<open>itertools.combinations(xs, 2)\<close> and \<^verbatim>\<open>itertools.combinations(xs, 3)\<close>:
  tuples of positions in increasing order, enumerated lexicographically.\<close>

fun combinations2 :: "'a list \<Rightarrow> ('a \<times> 'a) list" where
  "combinations2 [] = []"
| "combinations2 (x # xs) = map (Pair x) xs @ combinations2 xs"

fun combinations3 :: "'a list \<Rightarrow> ('a \<times> 'a \<times> 'a) list" where
  "combinations3 [] = []"
| "combinations3 (x # xs) = map (Pair x) (combinations2 xs) @ combinations3 xs"

text \<open>\<^verbatim>\<open>a / b\<close> on integers.\<close>

definition truediv :: "int \<Rightarrow> int \<Rightarrow> error + rat" where
  "truediv a b = (if b = 0 then Inl ZeroDivisionError else Inr (of_int a / of_int b))"

text \<open>\<^verbatim>\<open>xs[:k]\<close>: a negative \<open>k\<close> counts from the end.\<close>

definition slice_to :: "'a list \<Rightarrow> int \<Rightarrow> 'a list" where
  "slice_to xs k = (if k < 0 then take (nat (int (length xs) + k)) xs else take (nat k) xs)"

subsection \<open>Level 1\<close>

definition apriori_L1 :: "config \<Rightarrow> 'a::linorder list list \<Rightarrow> 'a counter \<times> 'a list" where
  "apriori_L1 cfg transactions =
     (let item_sup = fold (\<lambda>t item_sup. fold incr t item_sup) transactions [];
          L1 = sort (map fst (filter (\<lambda>(x, c). c \<ge> MIN_SUPPORT cfg) item_sup))
      in (item_sup, L1))"

subsection \<open>Level 2\<close>

text \<open>The local \<^verbatim>\<open>C2\<close> of \<^verbatim>\<open>apriori_L2\<close>.\<close>

definition apriori_L2_C2 :: "'a list \<Rightarrow> ('a \<times> 'a) list" where
  "apriori_L2_C2 L1 = fold set_add (combinations2 L1) []"

definition apriori_L2 ::
  "config \<Rightarrow> 'a::linorder list list \<Rightarrow> 'a list \<Rightarrow> ('a \<times> 'a) counter \<times> ('a \<times> 'a) list" where
  "apriori_L2 cfg transactions L1 =
     (let C2 = apriori_L2_C2 L1;
          pair_sup =
            fold (\<lambda>t pair_sup.
                    let ft = sort (filter (\<lambda>x. x \<in> set L1) t)
                    in fold (\<lambda>p pair_sup. if p \<in> set C2 then incr p pair_sup else pair_sup)
                         (combinations2 ft) pair_sup)
              transactions [];
          L2 = remdups (map fst (filter (\<lambda>(p, c). c \<ge> MIN_SUPPORT cfg) pair_sup))
      in (pair_sup, L2))"

subsection \<open>Level 3\<close>

text \<open>\<^verbatim>\<open>by_first[a].add(b)\<close> on a \<^verbatim>\<open>defaultdict(set)\<close>.\<close>

fun by_first_add :: "'a \<Rightarrow> 'a \<Rightarrow> ('a \<times> 'a list) list \<Rightarrow> ('a \<times> 'a list) list" where
  "by_first_add a b [] = [(a, [b])]"
| "by_first_add a b ((k, bs) # m) =
     (if k = a then (k, set_add b bs) # m else (k, bs) # by_first_add a b m)"

definition apriori_C3_from_L2 :: "('a::linorder \<times> 'a) list \<Rightarrow> ('a \<times> 'a \<times> 'a) list" where
  "apriori_C3_from_L2 L2 =
     (let by_first = fold (\<lambda>(a, b) by_first. by_first_add a b by_first) L2 []
      in fold (\<lambda>(a, bs) C3.
                 fold (\<lambda>(b, c) C3.
                         if (a, b) \<in> set L2 \<and> (a, c) \<in> set L2 \<and> (b, c) \<in> set L2
                         then set_add (a, b, c) C3 else C3)
                   (combinations2 (sort bs)) C3)
           by_first [])"

definition apriori_L3 ::
  "config \<Rightarrow> 'a::linorder list list \<Rightarrow> ('a \<times> 'a \<times> 'a) list
     \<Rightarrow> ('a \<times> 'a \<times> 'a) counter \<times> ('a \<times> 'a \<times> 'a) list" where
  "apriori_L3 cfg transactions C3 =
     (if C3 = [] then ([], [])
      else
        let triple_sup =
              fold (\<lambda>t triple_sup.
                      let ft = sort t
                      in fold (\<lambda>tri triple_sup.
                                 if tri \<in> set C3 then incr tri triple_sup else triple_sup)
                           (combinations3 ft) triple_sup)
                transactions [];
            L3 = remdups (map fst (filter (\<lambda>(tri, c). c \<ge> MIN_SUPPORT cfg) triple_sup))
        in (triple_sup, L3))"

subsection \<open>Rules\<close>

text \<open>A rule is the tuple \<^verbatim>\<open>(conf, lhs, rhs, sup)\<close> of the source.\<close>

type_synonym 'a rule_d = "rat \<times> 'a \<times> 'a \<times> int"
type_synonym 'a rule_e = "rat \<times> ('a \<times> 'a) \<times> 'a \<times> int"

text \<open>The loop of \<^verbatim>\<open>top5_part_d\<close> that appends two rules per pair; a zero
  denominator ends it with the exception.\<close>

fun part_d_rules ::
  "'a counter \<Rightarrow> ('a \<times> 'a) counter \<Rightarrow> ('a \<times> 'a) list \<Rightarrow> 'a rule_d list
     \<Rightarrow> error + 'a rule_d list" where
  "part_d_rules item_sup pair_sup [] rules = Inr rules"
| "part_d_rules item_sup pair_sup ((a, b) # L2) rules =
     (let sup_ab = getitem pair_sup (a, b)
      in case truediv sup_ab (getitem item_sup a) of
           Inl e \<Rightarrow> Inl e
         | Inr conf_a \<Rightarrow>
             (case truediv sup_ab (getitem item_sup b) of
                Inl e \<Rightarrow> Inl e
              | Inr conf_b \<Rightarrow>
                  part_d_rules item_sup pair_sup L2
                    (rules @ [(conf_a, a, b, sup_ab), (conf_b, b, a, sup_ab)])))"

text \<open>The sort key \<^verbatim>\<open>(-r[0], r[1], r[2])\<close>; tuples compare lexicographically.\<close>

definition key_d :: "'a rule_d \<Rightarrow> rat \<times> 'a \<times> 'a" where
  "key_d r = (case r of (conf, lhs, rhs, sup_ab) \<Rightarrow> (- conf, lhs, rhs))"

definition top5_part_d ::
  "config \<Rightarrow> 'a::linorder counter \<Rightarrow> ('a \<times> 'a) counter \<Rightarrow> ('a \<times> 'a) list
     \<Rightarrow> error + 'a rule_d list" where
  "top5_part_d cfg item_sup pair_sup L2 =
     (case part_d_rules item_sup pair_sup L2 [] of
        Inl e \<Rightarrow> Inl e
      | Inr rules \<Rightarrow> Inr (slice_to (sort_key key_d rules) (TOP_K cfg)))"

fun part_e_rules ::
  "('a \<times> 'a) counter \<Rightarrow> ('a \<times> 'a \<times> 'a) counter \<Rightarrow> ('a \<times> 'a \<times> 'a) list \<Rightarrow> 'a rule_e list
     \<Rightarrow> error + 'a rule_e list" where
  "part_e_rules pair_sup triple_sup [] rules = Inr rules"
| "part_e_rules pair_sup triple_sup ((x, y, z) # L3) rules =
     (let sup_xyz = getitem triple_sup (x, y, z)
      in case truediv sup_xyz (getitem pair_sup (x, y)) of
           Inl e \<Rightarrow> Inl e
         | Inr conf_xy \<Rightarrow>
             (case truediv sup_xyz (getitem pair_sup (x, z)) of
                Inl e \<Rightarrow> Inl e
              | Inr conf_xz \<Rightarrow>
                  (case truediv sup_xyz (getitem pair_sup (y, z)) of
                     Inl e \<Rightarrow> Inl e
                   | Inr conf_yz \<Rightarrow>
                       part_e_rules pair_sup triple_sup L3
                         (rules @ [(conf_xy, (x, y), z, sup_xyz),
                                   (conf_xz, (x, z), y, sup_xyz),
                                   (conf_yz, (y, z), x, sup_xyz)]))))"

text \<open>The sort key \<^verbatim>\<open>(-r[0], r[1][0], r[1][1], r[2])\<close>.\<close>

definition key_e :: "'a rule_e \<Rightarrow> rat \<times> 'a \<times> 'a \<times> 'a" where
  "key_e r = (case r of (conf, (lhs1, lhs2), rhs, sup_xyz) \<Rightarrow> (- conf, lhs1, lhs2, rhs))"

definition top5_part_e ::
  "config \<Rightarrow> ('a::linorder \<times> 'a) counter \<Rightarrow> ('a \<times> 'a \<times> 'a) counter \<Rightarrow> ('a \<times> 'a \<times> 'a) list
     \<Rightarrow> error + 'a rule_e list" where
  "top5_part_e cfg pair_sup triple_sup L3 =
     (case part_e_rules pair_sup triple_sup L3 [] of
        Inl e \<Rightarrow> Inl e
      | Inr rules \<Rightarrow> Inr (slice_to (sort_key key_e rules) (TOP_K cfg)))"

subsection \<open>The pipeline\<close>

text \<open>\<^verbatim>\<open>main\<close> without the loader and the printing: from the transactions to the two
  rule lists it prints.\<close>

definition main ::
  "config \<Rightarrow> 'a::linorder list list \<Rightarrow> error + ('a rule_d list \<times> 'a rule_e list)" where
  "main cfg transactions =
     (let (item_sup, L1) = apriori_L1 cfg transactions;
          (pair_sup, L2) = apriori_L2 cfg transactions L1;
          C3 = apriori_C3_from_L2 L2;
          (triple_sup, L3) = apriori_L3 cfg transactions C3
      in case top5_part_d cfg item_sup pair_sup L2 of
           Inl e \<Rightarrow> Inl e
         | Inr d_rules \<Rightarrow>
             (case top5_part_e cfg pair_sup triple_sup L3 of
                Inl e \<Rightarrow> Inl e
              | Inr e_rules \<Rightarrow> Inr (d_rules, e_rules)))"

subsection \<open>Notions used to state the properties\<close>

text \<open>The support of an itemset, recounted by a direct scan: the number of transactions
  that contain it.\<close>

definition support :: "'a list list \<Rightarrow> 'a set \<Rightarrow> int" where
  "support transactions X = int (length (filter (\<lambda>t. X \<subseteq> set t) transactions))"

definition counted2 :: "'a::linorder list \<Rightarrow> 'a list \<Rightarrow> ('a \<times> 'a) list" where
  "counted2 L1 t =
     filter (\<lambda>p. p \<in> set (combinations2 L1)) (combinations2 (sort (filter (\<lambda>x. x \<in> set L1) t)))"

definition pruned :: "('a::linorder \<times> 'a) list \<Rightarrow> 'a \<times> 'a \<times> 'a \<Rightarrow> bool" where
  "pruned L2 tri =
     (case tri of (a, b, c) \<Rightarrow>
        (a, b) \<in> set L2 \<and> (a, c) \<in> set L2 \<and> (b, c) \<in> set L2 \<and> b < c)"

definition counted3 :: "('a::linorder \<times> 'a \<times> 'a) list \<Rightarrow> 'a list \<Rightarrow> ('a \<times> 'a \<times> 'a) list" where
  "counted3 C3 t = filter (\<lambda>tri. tri \<in> set C3) (combinations3 (sort t))"

fun emit_d :: "'a counter \<Rightarrow> ('a \<times> 'a) counter \<Rightarrow> 'a \<times> 'a \<Rightarrow> 'a rule_d list" where
  "emit_d item_sup pair_sup (a, b) =
     [(of_int (getitem pair_sup (a, b)) / of_int (getitem item_sup a), a, b,
       getitem pair_sup (a, b)),
      (of_int (getitem pair_sup (a, b)) / of_int (getitem item_sup b), b, a,
       getitem pair_sup (a, b))]"

fun denoms_d :: "'a counter \<Rightarrow> 'a \<times> 'a \<Rightarrow> bool" where
  "denoms_d item_sup (a, b) \<longleftrightarrow> getitem item_sup a \<noteq> 0 \<and> getitem item_sup b \<noteq> 0"

fun emit_e ::
  "('a \<times> 'a) counter \<Rightarrow> ('a \<times> 'a \<times> 'a) counter \<Rightarrow> 'a \<times> 'a \<times> 'a \<Rightarrow> 'a rule_e list" where
  "emit_e pair_sup triple_sup (x, y, z) =
     [(of_int (getitem triple_sup (x, y, z)) / of_int (getitem pair_sup (x, y)), (x, y), z,
       getitem triple_sup (x, y, z)),
      (of_int (getitem triple_sup (x, y, z)) / of_int (getitem pair_sup (x, z)), (x, z), y,
       getitem triple_sup (x, y, z)),
      (of_int (getitem triple_sup (x, y, z)) / of_int (getitem pair_sup (y, z)), (y, z), x,
       getitem triple_sup (x, y, z))]"

fun denoms_e :: "('a \<times> 'a) counter \<Rightarrow> 'a \<times> 'a \<times> 'a \<Rightarrow> bool" where
  "denoms_e pair_sup (x, y, z) \<longleftrightarrow>
     getitem pair_sup (x, y) \<noteq> 0 \<and> getitem pair_sup (x, z) \<noteq> 0 \<and> getitem pair_sup (y, z) \<noteq> 0"

text \<open>The values \<^verbatim>\<open>main\<close> computes on the way, named as its local variables.\<close>

definition item_sup_of :: "config \<Rightarrow> 'a::linorder list list \<Rightarrow> 'a counter" where
  "item_sup_of cfg transactions = fst (apriori_L1 cfg transactions)"

definition L1_of :: "config \<Rightarrow> 'a::linorder list list \<Rightarrow> 'a list" where
  "L1_of cfg transactions = snd (apriori_L1 cfg transactions)"

definition C2_of :: "config \<Rightarrow> 'a::linorder list list \<Rightarrow> ('a \<times> 'a) list" where
  "C2_of cfg transactions = apriori_L2_C2 (L1_of cfg transactions)"

definition pair_sup_of :: "config \<Rightarrow> 'a::linorder list list \<Rightarrow> ('a \<times> 'a) counter" where
  "pair_sup_of cfg transactions = fst (apriori_L2 cfg transactions (L1_of cfg transactions))"

definition L2_of :: "config \<Rightarrow> 'a::linorder list list \<Rightarrow> ('a \<times> 'a) list" where
  "L2_of cfg transactions = snd (apriori_L2 cfg transactions (L1_of cfg transactions))"

definition C3_of :: "config \<Rightarrow> 'a::linorder list list \<Rightarrow> ('a \<times> 'a \<times> 'a) list" where
  "C3_of cfg transactions = apriori_C3_from_L2 (L2_of cfg transactions)"

definition triple_sup_of ::
  "config \<Rightarrow> 'a::linorder list list \<Rightarrow> ('a \<times> 'a \<times> 'a) counter" where
  "triple_sup_of cfg transactions = fst (apriori_L3 cfg transactions (C3_of cfg transactions))"

definition L3_of :: "config \<Rightarrow> 'a::linorder list list \<Rightarrow> ('a \<times> 'a \<times> 'a) list" where
  "L3_of cfg transactions = snd (apriori_L3 cfg transactions (C3_of cfg transactions))"

text \<open>The scenario of the specification: five transactions over the items 1, 2, 3
  (for A, B, C) with the threshold lowered to 2.\<close>

definition scenario_config :: config where
  "scenario_config = \<lparr>MIN_SUPPORT = 2, TOP_K = 5\<rparr>"

definition scenario :: "int list list" where
  "scenario = [[1, 2, 3], [1, 2], [1, 3], [2, 3], [1, 2, 3]]"

text \<open>An input with one item at the module's threshold and one just below it.\<close>

definition threshold_input :: "int list list" where
  "threshold_input = replicate 100 [1] @ replicate 99 [2]"

text \<open>An input with candidates that no transaction contains.\<close>

definition sparse_config :: config where
  "sparse_config = \<lparr>MIN_SUPPORT = 1, TOP_K = 5\<rparr>"

definition sparse :: "int list list" where
  "sparse = [[1, 2], [1, 3], [2, 3], [4]]"

text \<open>A configuration with non-positive values.\<close>

definition bad_config :: config where
  "bad_config = \<lparr>MIN_SUPPORT = 0, TOP_K = - 1\<rparr>"

text \<open>The ranking the specification states for the rules of pairs: confidence
  descending, then left-hand item ascending, then right-hand item ascending.\<close>

fun precedes_d :: "'a::linorder rule_d \<Rightarrow> 'a rule_d \<Rightarrow> bool" where
  "precedes_d (conf, lhs, rhs, s) (conf', lhs', rhs', s') \<longleftrightarrow>
     conf > conf' \<or> (conf = conf' \<and> (lhs < lhs' \<or> (lhs = lhs' \<and> rhs \<le> rhs')))"

text \<open>The ranking stated for the rules of triples: confidence descending, then the
  left-hand pair by first item and second item, then right-hand item ascending.\<close>

fun precedes_e :: "'a::linorder rule_e \<Rightarrow> 'a rule_e \<Rightarrow> bool" where
  "precedes_e (conf, (lhs1, lhs2), rhs, s) (conf', (lhs1', lhs2'), rhs', s') \<longleftrightarrow>
     conf > conf' \<or>
     (conf = conf' \<and>
       (lhs1 < lhs1' \<or>
        (lhs1 = lhs1' \<and> (lhs2 < lhs2' \<or> (lhs2 = lhs2' \<and> rhs \<le> rhs')))))"

text \<open>Support mappings and frequent sets for an example with distinct confidences and
  ties.\<close>

definition example_item_sup :: "int counter" where
  "example_item_sup = [(1, 10), (2, 5), (3, 4), (4, 3)]"

definition example_pair_sup :: "(int \<times> int) counter" where
  "example_pair_sup = [((1, 2), 4), ((1, 3), 2), ((2, 3), 2), ((1, 4), 2), ((2, 4), 1)]"

definition example_triple_sup :: "(int \<times> int \<times> int) counter" where
  "example_triple_sup = [((1, 2, 3), 1), ((1, 2, 4), 1)]"

definition example_L2 :: "(int \<times> int) list" where
  "example_L2 = [(1, 2), (1, 3), (2, 3)]"

definition example_L3 :: "(int \<times> int \<times> int) list" where
  "example_L3 = [(1, 2, 3), (1, 2, 4)]"

definition example_rules_d :: "int rule_d list" where
  "example_rules_d =
     [(2 / 5, 1, 2, 4), (4 / 5, 2, 1, 4), (1 / 5, 1, 3, 2), (1 / 2, 3, 1, 2),
      (2 / 5, 2, 3, 2), (1 / 2, 3, 2, 2)]"

definition example_top_d :: "int rule_d list" where
  "example_top_d =
     [(4 / 5, 2, 1, 4), (1 / 2, 3, 1, 2), (1 / 2, 3, 2, 2), (2 / 5, 1, 2, 4),
      (2 / 5, 2, 3, 2)]"

definition example_rules_e :: "int rule_e list" where
  "example_rules_e =
     [(1 / 4, (1, 2), 3, 1), (1 / 2, (1, 3), 2, 1), (1 / 2, (2, 3), 1, 1),
      (1 / 4, (1, 2), 4, 1), (1 / 2, (1, 4), 2, 1), (1, (2, 4), 1, 1)]"

definition example_top_e :: "int rule_e list" where
  "example_top_e =
     [(1, (2, 4), 1, 1), (1 / 2, (1, 3), 2, 1), (1 / 2, (1, 4), 2, 1),
      (1 / 2, (2, 3), 1, 1), (1 / 4, (1, 2), 3, 1)]"

section \<open>Auxiliary lemmas\<close>

lemmas pipeline_defs =
  item_sup_of_def L1_of_def C2_of_def pair_sup_of_def L2_of_def C3_of_def triple_sup_of_def
  L3_of_def

lemma main_eq:
  "main cfg transactions =
     (case top5_part_d cfg (item_sup_of cfg transactions) (pair_sup_of cfg transactions)
             (L2_of cfg transactions) of
        Inl e \<Rightarrow> Inl e
      | Inr d_rules \<Rightarrow>
          (case top5_part_e cfg (pair_sup_of cfg transactions) (triple_sup_of cfg transactions)
                  (L3_of cfg transactions) of
             Inl e \<Rightarrow> Inl e
           | Inr e_rules \<Rightarrow> Inr (d_rules, e_rules)))"
  unfolding main_def pipeline_defs Let_def split_beta ..

lemma map_of_incr:
  "map_of (incr k d) k' = (if k' = k then Some (getitem d k + 1) else map_of d k')"
  by (induction d) (auto simp: getitem_def)

lemma keys_incr: "fst ` set (incr k d) = insert k (fst ` set d)"
proof -
  have "dom (map_of (incr k d)) = insert k (dom (map_of d))"
    by (auto simp: map_of_incr dom_def)
  then show ?thesis by (simp add: dom_map_of_conv_image_fst)
qed

lemma distinct_keys_incr: "distinct (map fst d) \<Longrightarrow> distinct (map fst (incr k d))"
proof (induction d)
  case Nil
  then show ?case by simp
next
  case (Cons kc d)
  obtain k' c where kc: "kc = (k', c)" by (cases kc)
  from Cons have IH: "distinct (map fst (incr k d))" and k': "k' \<notin> fst ` set d" by (auto simp: kc)
  show ?case
  proof (cases "k' = k")
    case True
    then show ?thesis using Cons.prems by (simp add: kc)
  next
    case False
    then show ?thesis using IH k' by (simp add: kc keys_incr)
  qed
qed

lemma getitem_incr: "getitem (incr k d) k' = (if k' = k then getitem d k + 1 else getitem d k')"
  by (simp add: getitem_def map_of_incr)

lemma map_of_fold_incr:
  "map_of (fold incr ks d) k =
     (if k \<in> set ks then Some (getitem d k + int (count_list ks k)) else map_of d k)"
proof (induction ks arbitrary: d)
  case Nil
  then show ?case by simp
next
  case (Cons x ks)
  show ?case
    by (auto simp: Cons.IH getitem_incr map_of_incr count_list_0_iff)
qed

lemma distinct_keys_fold_incr:
  "distinct (map fst d) \<Longrightarrow> distinct (map fst (fold incr ks d))"
  by (induction ks arbitrary: d) (simp_all add: distinct_keys_incr)

lemma fold_incr_if:
  "fold (\<lambda>p d. if P p then incr p d else d) ps d = fold incr (filter P ps) d"
  by (induction ps arbitrary: d) simp_all

lemma fold_fold_incr:
  "fold (\<lambda>t d. fold incr (g t) d) ts d = fold incr (concat (map g ts)) d"
  by (induction ts arbitrary: d) simp_all

lemma count_list_distinct: "distinct xs \<Longrightarrow> count_list xs x = (if x \<in> set xs then 1 else 0)"
  by (induction xs) auto

lemma count_list_concat_map:
  "(\<And>t. t \<in> set ts \<Longrightarrow> distinct (g t)) \<Longrightarrow>
     count_list (concat (map g ts)) k = length (filter (\<lambda>t. k \<in> set (g t)) ts)"
  by (induction ts) (simp_all add: count_list_distinct)

text \<open>What a counting scan leaves in the dictionary.\<close>

lemma map_of_scan:
  assumes "\<And>t. t \<in> set ts \<Longrightarrow> distinct (g t)"
  shows "map_of (fold (\<lambda>t d. fold incr (g t) d) ts []) k =
           (if \<exists>t \<in> set ts. k \<in> set (g t)
            then Some (int (length (filter (\<lambda>t. k \<in> set (g t)) ts))) else None)"
  using assms
  by (auto simp: fold_fold_incr map_of_fold_incr count_list_concat_map getitem_def)

lemma distinct_keys_scan: "distinct (map fst (fold (\<lambda>t d. fold incr (g t) d) ts []))"
  by (simp add: fold_fold_incr distinct_keys_fold_incr)

lemma in_combinations2D: "(a, b) \<in> set (combinations2 xs) \<Longrightarrow> a \<in> set xs \<and> b \<in> set xs"
  by (induction xs) auto

lemma set_combinations2:
  "sorted_wrt (<) xs \<Longrightarrow>
     set (combinations2 xs) = {(a, b). a \<in> set xs \<and> b \<in> set xs \<and> a < b}"
  for xs :: "'a::linorder list"
  by (induction xs) (auto dest: in_combinations2D)

lemma distinct_combinations2: "distinct xs \<Longrightarrow> distinct (combinations2 xs)"
  by (induction xs) (auto simp: distinct_map inj_on_def dest: in_combinations2D)

lemma in_combinations3D:
  "(a, b, c) \<in> set (combinations3 xs) \<Longrightarrow> a \<in> set xs \<and> b \<in> set xs \<and> c \<in> set xs"
  by (induction xs) (auto dest: in_combinations2D)

lemma set_combinations3:
  "sorted_wrt (<) xs \<Longrightarrow>
     set (combinations3 xs) =
       {(a, b, c). a \<in> set xs \<and> b \<in> set xs \<and> c \<in> set xs \<and> a < b \<and> b < c}"
  for xs :: "'a::linorder list"
proof (induction xs)
  case Nil
  then show ?case by simp
next
  case (Cons x xs)
  then have "sorted_wrt (<) xs" and "\<forall>y \<in> set xs. x < y" by auto
  then show ?case
    using Cons.IH by (auto simp: set_combinations2 dest: in_combinations3D)
qed

lemma distinct_combinations3: "distinct xs \<Longrightarrow> distinct (combinations3 xs)"
  by (induction xs)
    (auto simp: distinct_map inj_on_def distinct_combinations2 dest: in_combinations3D)

lemma strict_sorted_sort: "distinct xs \<Longrightarrow> sorted_wrt (<) (sort xs)"
  for xs :: "'a::linorder list"
  by (simp add: strict_sorted_iff)

lemma map_of_scan_count:
  "map_of (fold (\<lambda>t d. fold incr (g t) d) ts []) k =
     (if \<exists>t \<in> set ts. k \<in> set (g t)
      then Some (int (count_list (concat (map g ts)) k)) else None)"
  by (auto simp: fold_fold_incr map_of_fold_incr getitem_def)

lemma scan_positive:
  assumes "map_of (fold (\<lambda>t d. fold incr (g t) d) ts []) k = Some c"
  shows "1 \<le> c"
proof -
  from assms have "k \<in> set (concat (map g ts))" and "c = int (count_list (concat (map g ts)) k)"
    by (auto simp: map_of_scan_count split: if_splits)
  then show ?thesis
    using count_list_0_iff [of "concat (map g ts)" k] by linarith
qed

lemma set_frequent:
  assumes "distinct (map fst d)"
  shows "set (map fst (filter (\<lambda>(k, c). m \<le> c) d)) = {k. \<exists>c. map_of d k = Some c \<and> m \<le> c}"
  using assms by (force simp: map_of_eq_Some_iff)

lemma distinct_frequent:
  "distinct (map fst d) \<Longrightarrow> distinct (map fst (filter (\<lambda>(k, c). m \<le> c) d))"
  by (simp add: distinct_map_filter)

lemma set_set_add: "set (set_add x s) = insert x (set s)"
  by (auto simp: set_add_def)

lemma distinct_set_add: "distinct s \<Longrightarrow> distinct (set_add x s)"
  by (simp add: set_add_def)

lemma set_fold_set_add: "set (fold set_add xs s) = set xs \<union> set s"
  by (induction xs arbitrary: s) (auto simp: set_set_add)

lemma set_apriori_L2_C2: "set (apriori_L2_C2 L1) = set (combinations2 L1)"
  by (simp add: apriori_L2_C2_def set_fold_set_add)

lemma item_sup_eq:
  "fst (apriori_L1 cfg ts) = fold (\<lambda>t d. fold incr t d) ts []"
  by (simp add: apriori_L1_def Let_def)

lemma L1_eq:
  "snd (apriori_L1 cfg ts) =
     sort (map fst (filter (\<lambda>(x, c). MIN_SUPPORT cfg \<le> c) (fst (apriori_L1 cfg ts))))"
  by (simp add: apriori_L1_def Let_def)

lemma distinct_item_sup: "distinct (map fst (fst (apriori_L1 cfg ts)))"
  unfolding item_sup_eq by (rule distinct_keys_scan [where g = "\<lambda>t. t"])

lemma map_of_item_sup:
  assumes "\<forall>t \<in> set ts. distinct t"
  shows "map_of (fst (apriori_L1 cfg ts)) x =
           (if \<exists>t \<in> set ts. x \<in> set t then Some (support ts {x}) else None)"
  unfolding item_sup_eq support_def
  using map_of_scan [where g = "\<lambda>t. t" and ts = ts and k = x] assms by simp

lemma item_sup_positive: "map_of (fst (apriori_L1 cfg ts)) x = Some c \<Longrightarrow> 1 \<le> c"
  unfolding item_sup_eq by (rule scan_positive [where g = "\<lambda>t. t"])

lemma set_L1:
  "set (snd (apriori_L1 cfg ts)) =
     {x. \<exists>c. map_of (fst (apriori_L1 cfg ts)) x = Some c \<and> MIN_SUPPORT cfg \<le> c}"
  unfolding L1_eq by (simp add: set_frequent [OF distinct_item_sup] del: set_map)

lemma sorted_L1: "sorted (snd (apriori_L1 cfg ts))"
  unfolding L1_eq by simp

lemma distinct_L1: "distinct (snd (apriori_L1 cfg ts))"
  unfolding L1_eq by (simp add: distinct_frequent [OF distinct_item_sup])

lemma pair_sup_eq:
  "fst (apriori_L2 cfg ts L1) = fold (\<lambda>t d. fold incr (counted2 L1 t) d) ts []"
  by (simp add: apriori_L2_def Let_def fold_incr_if counted2_def set_apriori_L2_C2)

lemma L2_eq:
  "snd (apriori_L2 cfg ts L1) =
     remdups (map fst (filter (\<lambda>(p, c). MIN_SUPPORT cfg \<le> c) (fst (apriori_L2 cfg ts L1))))"
  by (simp add: apriori_L2_def Let_def)

lemma distinct_pair_sup: "distinct (map fst (fst (apriori_L2 cfg ts L1)))"
  unfolding pair_sup_eq by (rule distinct_keys_scan)

lemma distinct_counted2: "distinct t \<Longrightarrow> distinct (counted2 L1 t)"
  by (simp add: counted2_def distinct_combinations2)

lemma in_counted2:
  "distinct t \<Longrightarrow>
     (a, b) \<in> set (counted2 L1 t) \<longleftrightarrow>
       (a, b) \<in> set (combinations2 L1) \<and> a < b \<and> a \<in> set t \<and> b \<in> set t"
  by (auto simp: counted2_def set_combinations2 strict_sorted_sort dest: in_combinations2D)

lemma in_counted2_C2: "p \<in> set (counted2 L1 t) \<Longrightarrow> p \<in> set (combinations2 L1)"
  by (simp add: counted2_def)

lemma map_of_pair_sup:
  assumes "\<forall>t \<in> set ts. distinct t"
  shows "map_of (fst (apriori_L2 cfg ts L1)) (a, b) =
           (if (a, b) \<in> set (combinations2 L1) \<and> a < b \<and> (\<exists>t \<in> set ts. {a, b} \<subseteq> set t)
            then Some (support ts {a, b}) else None)"
proof -
  have "map_of (fst (apriori_L2 cfg ts L1)) (a, b) =
          (if \<exists>t \<in> set ts. (a, b) \<in> set (counted2 L1 t)
           then Some (int (length (filter (\<lambda>t. (a, b) \<in> set (counted2 L1 t)) ts))) else None)"
    unfolding pair_sup_eq using assms by (intro map_of_scan) (simp add: distinct_counted2)
  also have "(\<exists>t \<in> set ts. (a, b) \<in> set (counted2 L1 t)) \<longleftrightarrow>
      (a, b) \<in> set (combinations2 L1) \<and> a < b \<and> (\<exists>t \<in> set ts. {a, b} \<subseteq> set t)"
    using assms by (auto simp: in_counted2)
  also have "(a, b) \<in> set (combinations2 L1) \<and> a < b \<Longrightarrow>
      filter (\<lambda>t. (a, b) \<in> set (counted2 L1 t)) ts = filter (\<lambda>t. {a, b} \<subseteq> set t) ts"
    using assms by (intro filter_cong) (auto simp: in_counted2)
  then have "(if (a, b) \<in> set (combinations2 L1) \<and> a < b \<and> (\<exists>t \<in> set ts. {a, b} \<subseteq> set t)
      then Some (int (length (filter (\<lambda>t. (a, b) \<in> set (counted2 L1 t)) ts))) else None) =
     (if (a, b) \<in> set (combinations2 L1) \<and> a < b \<and> (\<exists>t \<in> set ts. {a, b} \<subseteq> set t)
      then Some (support ts {a, b}) else None)"
    by (simp add: support_def)
  finally show ?thesis .
qed

lemma pair_sup_key_C2:
  assumes "map_of (fst (apriori_L2 cfg ts L1)) p = Some c"
  shows "p \<in> set (combinations2 L1)"
  using assms unfolding pair_sup_eq
  by (auto simp: map_of_scan_count split: if_splits dest: in_counted2_C2)

lemma pair_sup_positive: "map_of (fst (apriori_L2 cfg ts L1)) p = Some c \<Longrightarrow> 1 \<le> c"
  unfolding pair_sup_eq by (rule scan_positive)

lemma set_L2:
  "set (snd (apriori_L2 cfg ts L1)) =
     {p. \<exists>c. map_of (fst (apriori_L2 cfg ts L1)) p = Some c \<and> MIN_SUPPORT cfg \<le> c}"
  unfolding L2_eq by (simp add: set_frequent [OF distinct_pair_sup] del: set_map)

lemma distinct_L2: "distinct (snd (apriori_L2 cfg ts L1))"
  unfolding L2_eq by simp

lemma by_first_add_distinct:
  "\<forall>(k, bs) \<in> set m. distinct bs \<Longrightarrow> \<forall>(k, bs) \<in> set (by_first_add a b m). distinct bs"
  by (induction m) (auto simp: distinct_set_add split: if_splits)

lemma by_first_distinct:
  "\<forall>(k, bs) \<in> set (fold (\<lambda>(a, b) by_first. by_first_add a b by_first) L2 []). distinct bs"
  by (rule fold_invariant [where Q = "\<lambda>_. True"]) (auto dest: by_first_add_distinct)

lemma C3_inner:
  assumes "distinct bs" and "\<forall>tri \<in> set C3. pruned L2 tri"
  shows "\<forall>tri \<in> set (fold (\<lambda>(b, c) C3.
                         if (a, b) \<in> set L2 \<and> (a, c) \<in> set L2 \<and> (b, c) \<in> set L2
                         then set_add (a, b, c) C3 else C3)
                   (combinations2 (sort bs)) C3). pruned L2 tri"
proof (rule fold_invariant [where Q = "\<lambda>(b, c). b < c"])
  show "case p of (b, c) \<Rightarrow> b < c" if "p \<in> set (combinations2 (sort bs))" for p
    using that assms(1) by (auto simp: set_combinations2 strict_sorted_sort)
  show "\<forall>tri \<in> set C3. pruned L2 tri" by fact
  show "\<forall>tri\<in>set ((case p of (b, c) \<Rightarrow> \<lambda>C3.
             if (a, b) \<in> set L2 \<and> (a, c) \<in> set L2 \<and> (b, c) \<in> set L2
             then set_add (a, b, c) C3 else C3) s). pruned L2 tri"
    if "case p of (b, c) \<Rightarrow> b < c" and "\<forall>tri \<in> set s. pruned L2 tri" for p s
    using that by (auto simp: set_set_add pruned_def split: if_splits)
qed

lemma C3_pruned: "\<forall>tri \<in> set (apriori_C3_from_L2 L2). pruned L2 tri"
  unfolding apriori_C3_from_L2_def Let_def
proof (rule fold_invariant [where Q = "\<lambda>(a, bs). distinct bs"])
  show "case x of (a, bs) \<Rightarrow> distinct bs"
    if "x \<in> set (fold (\<lambda>(a, b) by_first. by_first_add a b by_first) L2 [])" for x
    using that by_first_distinct [of L2] by auto
  show "\<forall>tri \<in> set []. pruned L2 tri" by simp
  show "\<forall>tri\<in>set ((case x of (a, bs) \<Rightarrow>
              fold (\<lambda>(b, c) C3.
                  if (a, b) \<in> set L2 \<and> (a, c) \<in> set L2 \<and> (b, c) \<in> set L2
                  then set_add (a, b, c) C3 else C3)
               (combinations2 (sort bs))) s). pruned L2 tri"
    if "case x of (a, bs) \<Rightarrow> distinct bs" and "\<forall>tri \<in> set s. pruned L2 tri" for x s
  proof (cases x)
    case (Pair a bs)
    with that show ?thesis using C3_inner [of bs s L2 a] by simp
  qed
qed

lemma triple_sup_eq:
  "fst (apriori_L3 cfg ts C3) =
     (if C3 = [] then [] else fold (\<lambda>t d. fold incr (counted3 C3 t) d) ts [])"
  by (simp add: apriori_L3_def Let_def fold_incr_if counted3_def)

lemma triple_sup_eq':
  "fst (apriori_L3 cfg ts C3) = fold (\<lambda>t d. fold incr (counted3 C3 t) d) ts []"
proof (cases "C3 = []")
  case True
  have "fold (\<lambda>t d. fold incr (counted3 [] t) d) ts d = d" for d :: "('a \<times> 'a \<times> 'a) counter"
    by (induction ts) (simp_all add: counted3_def)
  with True show ?thesis by (simp add: triple_sup_eq)
next
  case False
  then show ?thesis by (simp add: triple_sup_eq)
qed

lemma L3_eq:
  "snd (apriori_L3 cfg ts C3) =
     remdups (map fst (filter (\<lambda>(tri, c). MIN_SUPPORT cfg \<le> c) (fst (apriori_L3 cfg ts C3))))"
  by (simp add: apriori_L3_def Let_def)

lemma distinct_triple_sup: "distinct (map fst (fst (apriori_L3 cfg ts C3)))"
  unfolding triple_sup_eq' by (rule distinct_keys_scan)

lemma distinct_counted3: "distinct t \<Longrightarrow> distinct (counted3 C3 t)"
  by (simp add: counted3_def distinct_combinations3)

lemma in_counted3:
  "distinct t \<Longrightarrow>
     (x, y, z) \<in> set (counted3 C3 t) \<longleftrightarrow>
       (x, y, z) \<in> set C3 \<and> x < y \<and> y < z \<and> x \<in> set t \<and> y \<in> set t \<and> z \<in> set t"
  by (auto simp: counted3_def set_combinations3 strict_sorted_sort)

lemma in_counted3_C3: "tri \<in> set (counted3 C3 t) \<Longrightarrow> tri \<in> set C3"
  by (simp add: counted3_def)

lemma map_of_triple_sup:
  assumes "\<forall>t \<in> set ts. distinct t"
  shows "map_of (fst (apriori_L3 cfg ts C3)) (x, y, z) =
           (if (x, y, z) \<in> set C3 \<and> x < y \<and> y < z \<and> (\<exists>t \<in> set ts. {x, y, z} \<subseteq> set t)
            then Some (support ts {x, y, z}) else None)"
proof -
  let ?in = "\<lambda>t. (x, y, z) \<in> set (counted3 C3 t)"
  let ?cond = "(x, y, z) \<in> set C3 \<and> x < y \<and> y < z"
  have "map_of (fst (apriori_L3 cfg ts C3)) (x, y, z) =
          (if \<exists>t \<in> set ts. ?in t then Some (int (length (filter ?in ts))) else None)"
    unfolding triple_sup_eq' using assms by (intro map_of_scan) (simp add: distinct_counted3)
  also have "(\<exists>t \<in> set ts. ?in t) \<longleftrightarrow> ?cond \<and> (\<exists>t \<in> set ts. {x, y, z} \<subseteq> set t)"
    using assms by (auto simp: in_counted3)
  also have "?cond \<Longrightarrow> filter ?in ts = filter (\<lambda>t. {x, y, z} \<subseteq> set t) ts"
    using assms by (intro filter_cong) (auto simp: in_counted3)
  then have eq: "?cond \<Longrightarrow> int (length (filter ?in ts)) = support ts {x, y, z}"
    unfolding support_def by (rule arg_cong)
  have "(if ?cond \<and> (\<exists>t \<in> set ts. {x, y, z} \<subseteq> set t)
      then Some (int (length (filter ?in ts))) else None) =
     (if ?cond \<and> (\<exists>t \<in> set ts. {x, y, z} \<subseteq> set t)
      then Some (support ts {x, y, z}) else None)"
  proof (cases ?cond)
    case True
    with eq show ?thesis by presburger
  next
    case False
    then show ?thesis by presburger
  qed
  finally show ?thesis by (simp only: conj_assoc)
qed

lemma triple_sup_key_C3:
  assumes "map_of (fst (apriori_L3 cfg ts C3)) tri = Some c"
  shows "tri \<in> set C3"
  using assms unfolding triple_sup_eq'
  by (auto simp: map_of_scan_count split: if_splits dest: in_counted3_C3)

lemma triple_sup_positive: "map_of (fst (apriori_L3 cfg ts C3)) tri = Some c \<Longrightarrow> 1 \<le> c"
  unfolding triple_sup_eq' by (rule scan_positive)

lemma set_L3:
  "set (snd (apriori_L3 cfg ts C3)) =
     {tri. \<exists>c. map_of (fst (apriori_L3 cfg ts C3)) tri = Some c \<and> MIN_SUPPORT cfg \<le> c}"
  unfolding L3_eq by (simp add: set_frequent [OF distinct_triple_sup] del: set_map)

lemma distinct_L3: "distinct (snd (apriori_L3 cfg ts C3))"
  unfolding L3_eq by simp

lemma part_d_rules_eq:
  "part_d_rules item_sup pair_sup L2 rules =
     (if \<forall>p \<in> set L2. denoms_d item_sup p
      then Inr (rules @ concat (map (emit_d item_sup pair_sup) L2))
      else Inl ZeroDivisionError)"
proof (induction L2 arbitrary: rules)
  case Nil
  then show ?case by simp
next
  case (Cons p L2)
  obtain a b where p: "p = (a, b)" by (cases p)
  show ?case
    by (simp add: p Cons.IH truediv_def Let_def)
qed

lemma part_e_rules_eq:
  "part_e_rules pair_sup triple_sup L3 rules =
     (if \<forall>tri \<in> set L3. denoms_e pair_sup tri
      then Inr (rules @ concat (map (emit_e pair_sup triple_sup) L3))
      else Inl ZeroDivisionError)"
proof (induction L3 arbitrary: rules)
  case Nil
  then show ?case by simp
next
  case (Cons tri L3)
  obtain x y z where tri: "tri = (x, y, z)" by (cases tri)
  show ?case
    by (simp add: tri Cons.IH truediv_def Let_def)
qed







section \<open>Support counts\<close>

lemma getitem_item_sup:
  assumes "\<forall>t \<in> set ts. distinct t"
  shows "getitem (fst (apriori_L1 cfg ts)) x = support ts {x}"
proof (cases "\<exists>t \<in> set ts. x \<in> set t")
  case True
  then show ?thesis by (simp add: getitem_def map_of_item_sup [OF assms])
next
  case False
  then have "filter (\<lambda>t. {x} \<subseteq> set t) ts = []" by (simp add: filter_empty_conv)
  with False show ?thesis by (simp add: getitem_def map_of_item_sup [OF assms] support_def)
qed

text \<open>
  Claim C1 (support consistency). When every transaction is a set, the item-support
  mapping of \<open>apriori_L1\<close> gives for every item the number of transactions that contain
  it, and every support recorded by \<open>apriori_L2\<close> for a pair, and by \<open>apriori_L3\<close> for a
  triple, is the number of transactions that contain the pair, respectively the triple.
  \<open>L1\<close> and \<open>C3\<close> are arbitrary arguments.
\<close>

theorem support_consistency:
  assumes "\<forall>t \<in> set transactions. distinct t"
  shows "(\<forall>x. getitem (fst (apriori_L1 cfg transactions)) x = support transactions {x}) \<and>
         (\<forall>a b c. map_of (fst (apriori_L2 cfg transactions L1)) (a, b) = Some c \<longrightarrow>
            c = support transactions {a, b}) \<and>
         (\<forall>x y z c. map_of (fst (apriori_L3 cfg transactions C3)) (x, y, z) = Some c \<longrightarrow>
            c = support transactions {x, y, z})"
proof (intro conjI allI impI)
  show "getitem (fst (apriori_L1 cfg transactions)) x = support transactions {x}" for x
    by (rule getitem_item_sup [OF assms])
  show "c = support transactions {a, b}"
    if "map_of (fst (apriori_L2 cfg transactions L1)) (a, b) = Some c" for a b c
    using that by (simp add: map_of_pair_sup [OF assms] split: if_splits)
  show "c = support transactions {x, y, z}"
    if "map_of (fst (apriori_L3 cfg transactions C3)) (x, y, z) = Some c" for x y z c
    using that by (simp add: map_of_triple_sup [OF assms] split: if_splits)
qed

section \<open>Anti-monotonicity\<close>

lemma L2_members_in_L1:
  assumes "(a, b) \<in> set (snd (apriori_L2 cfg ts L1))"
  shows "a \<in> set L1 \<and> b \<in> set L1"
proof -
  from assms obtain c where "map_of (fst (apriori_L2 cfg ts L1)) (a, b) = Some c"
    by (auto simp: set_L2)
  then have "(a, b) \<in> set (combinations2 L1)" by (rule pair_sup_key_C2)
  then show ?thesis by (rule in_combinations2D)
qed

lemma L3_subset_C3:
  assumes "tri \<in> set (snd (apriori_L3 cfg ts C3))"
  shows "tri \<in> set C3"
proof -
  from assms obtain c where "map_of (fst (apriori_L3 cfg ts C3)) tri = Some c"
    unfolding set_L3 by blast
  then show ?thesis by (rule triple_sup_key_C3)
qed

lemma C3_prunedD:
  assumes "(x, y, z) \<in> set (apriori_C3_from_L2 L2)"
  shows "(x, y) \<in> set L2 \<and> (x, z) \<in> set L2 \<and> (y, z) \<in> set L2 \<and> y < z"
proof -
  from assms C3_pruned [of L2] have "pruned L2 (x, y, z)" by blast
  then show ?thesis by (simp add: pruned_def)
qed

text \<open>
  Claim C4 (anti-monotonicity). Both items of every pair in the \<open>L2\<close> returned by
  \<open>apriori_L2\<close> are members of the \<open>L1\<close> it was given; all three 2-subsets of every
  candidate triple returned by \<open>apriori_C3_from_L2\<close>, and of every triple in the \<open>L3\<close>
  returned by \<open>apriori_L3\<close> on these candidates, are members of \<open>L2\<close>.
\<close>

theorem anti_monotonicity:
  "(\<forall>(a, b) \<in> set (snd (apriori_L2 cfg transactions L1)). a \<in> set L1 \<and> b \<in> set L1) \<and>
   (\<forall>(x, y, z) \<in> set (apriori_C3_from_L2 L2).
      (x, y) \<in> set L2 \<and> (x, z) \<in> set L2 \<and> (y, z) \<in> set L2) \<and>
   (\<forall>(x, y, z) \<in> set (snd (apriori_L3 cfg transactions (apriori_C3_from_L2 L2))).
      (x, y) \<in> set L2 \<and> (x, z) \<in> set L2 \<and> (y, z) \<in> set L2)"
proof (intro conjI ballI)
  fix p assume p: "p \<in> set (snd (apriori_L2 cfg transactions L1))"
  obtain a b where ab: "p = (a, b)" by (cases p)
  from p have "a \<in> set L1 \<and> b \<in> set L1" unfolding ab by (rule L2_members_in_L1)
  then show "case p of (a, b) \<Rightarrow> a \<in> set L1 \<and> b \<in> set L1" by (simp add: ab)
next
  fix tri assume t: "tri \<in> set (apriori_C3_from_L2 L2)"
  obtain x y z where xyz: "tri = (x, y, z)" by (cases tri)
  from t have "(x, y) \<in> set L2 \<and> (x, z) \<in> set L2 \<and> (y, z) \<in> set L2 \<and> y < z"
    unfolding xyz by (rule C3_prunedD)
  then show "case tri of (x, y, z) \<Rightarrow> (x, y) \<in> set L2 \<and> (x, z) \<in> set L2 \<and> (y, z) \<in> set L2"
    by (simp add: xyz)
next
  fix tri assume "tri \<in> set (snd (apriori_L3 cfg transactions (apriori_C3_from_L2 L2)))"
  then have t: "tri \<in> set (apriori_C3_from_L2 L2)" by (rule L3_subset_C3)
  obtain x y z where xyz: "tri = (x, y, z)" by (cases tri)
  from t have "(x, y) \<in> set L2 \<and> (x, z) \<in> set L2 \<and> (y, z) \<in> set L2 \<and> y < z"
    unfolding xyz by (rule C3_prunedD)
  then show "case tri of (x, y, z) \<Rightarrow> (x, y) \<in> set L2 \<and> (x, z) \<in> set L2 \<and> (y, z) \<in> set L2"
    by (simp add: xyz)
qed

section \<open>Canonical form\<close>

lemma strict_sorted_L1: "sorted_wrt (<) (snd (apriori_L1 cfg ts))"
  by (simp add: strict_sorted_iff sorted_L1 distinct_L1)

lemma C2_canonical: "(a, b) \<in> set (apriori_L2_C2 (snd (apriori_L1 cfg ts))) \<Longrightarrow> a < b"
  by (simp add: set_apriori_L2_C2 set_combinations2 [OF strict_sorted_L1])

lemma pair_sup_keys_canonical:
  assumes "\<forall>t \<in> set ts. distinct t" and "(a, b) \<in> fst ` set (fst (apriori_L2 cfg ts L1))"
  shows "a < b"
proof -
  from assms(2) have "map_of (fst (apriori_L2 cfg ts L1)) (a, b) \<noteq> None"
    by (simp add: map_of_eq_None_iff)
  then show ?thesis by (simp add: map_of_pair_sup [OF assms(1)] split: if_splits)
qed

lemma map_of_Some_key: "map_of d k = Some c \<Longrightarrow> k \<in> fst ` set d"
  by (drule map_of_SomeD) force

lemma L2_subset_keys:
  assumes "p \<in> set (snd (apriori_L2 cfg ts L1))"
  shows "p \<in> fst ` set (fst (apriori_L2 cfg ts L1))"
proof -
  from assms obtain c where "map_of (fst (apriori_L2 cfg ts L1)) p = Some c"
    unfolding set_L2 by blast
  then show ?thesis by (rule map_of_Some_key)
qed

lemma L3_subset_keys:
  assumes "tri \<in> set (snd (apriori_L3 cfg ts C3))"
  shows "tri \<in> fst ` set (fst (apriori_L3 cfg ts C3))"
proof -
  from assms obtain c where "map_of (fst (apriori_L3 cfg ts C3)) tri = Some c"
    unfolding set_L3 by blast
  then show ?thesis by (rule map_of_Some_key)
qed

lemma triple_sup_keys_canonical:
  assumes "\<forall>t \<in> set ts. distinct t" and "(x, y, z) \<in> fst ` set (fst (apriori_L3 cfg ts C3))"
  shows "x < y \<and> y < z"
proof -
  from assms(2) have "map_of (fst (apriori_L3 cfg ts C3)) (x, y, z) \<noteq> None"
    by (simp add: map_of_eq_None_iff)
  then show ?thesis by (simp add: map_of_triple_sup [OF assms(1)] split: if_splits)
qed

lemma C3_canonical:
  assumes "\<forall>t \<in> set ts. distinct t"
    and "(x, y, z) \<in> set (apriori_C3_from_L2 (snd (apriori_L2 cfg ts L1)))"
  shows "x < y \<and> y < z"
proof -
  from C3_prunedD [OF assms(2)]
  have "(x, y) \<in> set (snd (apriori_L2 cfg ts L1))" and "y < z" by simp_all
  from this(1) have "(x, y) \<in> fst ` set (fst (apriori_L2 cfg ts L1))"
    by (rule L2_subset_keys)
  with assms(1) have "x < y" by (rule pair_sup_keys_canonical)
  with \<open>y < z\<close> show ?thesis by simp
qed

text \<open>
  Claim C5 (canonical form). In a run of the pipeline on transactions that are sets,
  every key of the pair-support mapping and every member of \<open>C2\<close> and \<open>L2\<close> is a pair
  \<open>(a, b)\<close> with \<open>a < b\<close>, and every member of \<open>C3\<close>, key of the triple-support mapping
  and member of \<open>L3\<close> is a triple \<open>(x, y, z)\<close> with \<open>x < y < z\<close>; so no itemset repeats
  an item.
\<close>

theorem canonical_form:
  assumes "\<forall>t \<in> set transactions. distinct t"
  shows "(\<forall>(a, b) \<in> fst ` set (pair_sup_of cfg transactions) \<union> set (C2_of cfg transactions)
            \<union> set (L2_of cfg transactions). a < b) \<and>
         (\<forall>(x, y, z) \<in> set (C3_of cfg transactions) \<union> fst ` set (triple_sup_of cfg transactions)
            \<union> set (L3_of cfg transactions). x < y \<and> y < z)"
  unfolding pipeline_defs
proof (intro conjI ballI)
  fix p
  assume p: "p \<in> fst ` set (fst (apriori_L2 cfg transactions (snd (apriori_L1 cfg transactions)))) \<union> set (apriori_L2_C2 (snd (apriori_L1 cfg transactions)))
            \<union> set (snd (apriori_L2 cfg transactions (snd (apriori_L1 cfg transactions))))"
  obtain a b where ab: "p = (a, b)" by (cases p)
  from p have "a < b"
    unfolding ab
    using pair_sup_keys_canonical [OF assms, of a b cfg] C2_canonical [of a b cfg transactions]
      L2_subset_keys [of "(a, b)" cfg transactions]
    by blast
  then show "case p of (a, b) \<Rightarrow> a < b" by (simp add: ab)
next
  fix tri
  assume t: "tri \<in> set (apriori_C3_from_L2 (snd (apriori_L2 cfg transactions (snd (apriori_L1 cfg transactions))))) \<union> fst ` set (fst (apriori_L3 cfg transactions (apriori_C3_from_L2 (snd (apriori_L2 cfg transactions (snd (apriori_L1 cfg transactions)))))))
            \<union> set (snd (apriori_L3 cfg transactions (apriori_C3_from_L2 (snd (apriori_L2 cfg transactions (snd (apriori_L1 cfg transactions)))))))"
  obtain x y z where xyz: "tri = (x, y, z)" by (cases tri)
  from t have "x < y \<and> y < z"
    unfolding xyz
    using C3_canonical [OF assms, of x y z cfg] triple_sup_keys_canonical [OF assms, of x y z cfg]
      L3_subset_keys [of "(x, y, z)" cfg transactions]
    by blast
  then show "case tri of (x, y, z) \<Rightarrow> x < y \<and> y < z" by (simp add: xyz)
qed

section \<open>The scenario of the specification\<close>

lemma scenario_distinct: "\<forall>t \<in> set scenario. distinct t"
  by (simp add: scenario_def)

lemma scenario_L1: "apriori_L1 scenario_config scenario = ([(1, 4), (2, 4), (3, 4)], [1, 2, 3])"
  by code_simp

lemma scenario_L2:
  "apriori_L2 scenario_config scenario [1, 2, 3] =
     ([((1, 2), 3), ((1, 3), 3), ((2, 3), 3)], [(1, 2), (1, 3), (2, 3)])"
  by code_simp

lemma scenario_C2: "apriori_L2_C2 [1, 2, 3 :: int] = [(1, 2), (1, 3), (2, 3)]"
  by code_simp

lemma scenario_C3: "apriori_C3_from_L2 [(1, 2), (1, 3), (2, 3 :: int)] = [(1, 2, 3)]"
  by code_simp

lemma scenario_L3:
  "apriori_L3 scenario_config scenario [(1, 2, 3)] = ([((1, 2, 3), 2)], [(1, 2, 3)])"
  by code_simp

theorem support_consistency_witness:
  "list_all distinct scenario \<and>
   getitem (fst (apriori_L1 scenario_config scenario)) 1 = 4 \<and> support scenario {1} = 4 \<and>
   map_of (fst (apriori_L2 scenario_config scenario [1, 2, 3])) (1, 2) = Some 3 \<and>
   support scenario {1, 2} = 3 \<and>
   map_of (fst (apriori_L3 scenario_config scenario [(1, 2, 3)])) (1, 2, 3) = Some 2 \<and>
   support scenario {1, 2, 3} = 2"
proof -
  note T = support_consistency [OF scenario_distinct, of scenario_config "[1, 2, 3]" "[(1, 2, 3)]"]
  have e1: "getitem (fst (apriori_L1 scenario_config scenario)) 1 = 4"
    by (simp add: scenario_L1 getitem_def)
  have e2: "map_of (fst (apriori_L2 scenario_config scenario [1, 2, 3])) (1, 2) = Some 3"
    by (simp add: scenario_L2)
  have e3: "map_of (fst (apriori_L3 scenario_config scenario [(1, 2, 3)])) (1, 2, 3) = Some 2"
    by (simp add: scenario_L3)
  have s1: "support scenario {1} = 4"
    using T [THEN conjunct1, rule_format, of 1] e1 by simp
  have s2: "support scenario {1, 2} = 3"
    using T [THEN conjunct2, THEN conjunct1, rule_format, OF e2] by simp
  have s3: "support scenario {1, 2, 3} = 2"
    using T [THEN conjunct2, THEN conjunct2, rule_format, OF e3] by simp
  have "list_all distinct scenario" using scenario_distinct by (simp add: list_all_iff)
  with e1 s1 e2 s2 e3 s3 show ?thesis by (intro conjI)
qed

theorem anti_monotonicity_witness:
  "(1, 2) \<in> set (snd (apriori_L2 scenario_config scenario [1, 2, 3])) \<and>
   (1::int) \<in> set [1, 2, 3] \<and> (2::int) \<in> set [1, 2, 3] \<and>
   (1, 2, 3) \<in> set (apriori_C3_from_L2 [(1, 2), (1, 3), (2, 3 :: int)]) \<and>
   (1, 2, 3) \<in> set (snd (apriori_L3 scenario_config scenario
                      (apriori_C3_from_L2 [(1, 2), (1, 3), (2, 3)]))) \<and>
   (1, 2) \<in> set ([(1, 2), (1, 3), (2, 3)] :: (int \<times> int) list) \<and>
   (1, 3) \<in> set ([(1, 2), (1, 3), (2, 3)] :: (int \<times> int) list) \<and>
   (2, 3) \<in> set ([(1, 2), (1, 3), (2, 3)] :: (int \<times> int) list)"
proof -
  note T = anti_monotonicity [of scenario_config scenario "[1, 2, 3]" "[(1, 2), (1, 3), (2, 3)]"]
  have m2: "(1, 2) \<in> set (snd (apriori_L2 scenario_config scenario [1, 2, 3]))"
    by (simp add: scenario_L2)
  have m3: "(1, 2, 3) \<in> set (apriori_C3_from_L2 [(1, 2), (1, 3), (2, 3 :: int)])"
    by (simp add: scenario_C3)
  have m4: "(1, 2, 3) \<in> set (snd (apriori_L3 scenario_config scenario
                      (apriori_C3_from_L2 [(1, 2), (1, 3), (2, 3)])))"
    by (simp add: scenario_C3 scenario_L3)
  have c1: "(1::int) \<in> set [1, 2, 3] \<and> (2::int) \<in> set [1, 2, 3]"
    using T [THEN conjunct1, rule_format, OF m2] by simp
  have c2: "(1, 2) \<in> set ([(1, 2), (1, 3), (2, 3)] :: (int \<times> int) list) \<and>
      (1, 3) \<in> set ([(1, 2), (1, 3), (2, 3)] :: (int \<times> int) list) \<and> (2, 3) \<in> set ([(1, 2), (1, 3), (2, 3)] :: (int \<times> int) list)"
    using T [THEN conjunct2, THEN conjunct2, rule_format, OF m4] by simp
  from m2 c1 m3 m4 c2 show ?thesis by (intro conjI) simp_all
qed

theorem canonical_form_witness:
  "list_all distinct scenario \<and>
   (1, 2) \<in> fst ` set (pair_sup_of scenario_config scenario) \<and>
   (1, 3) \<in> set (C2_of scenario_config scenario) \<and>
   (2, 3) \<in> set (L2_of scenario_config scenario) \<and>
   (1, 2, 3) \<in> set (C3_of scenario_config scenario) \<and>
   (1, 2, 3) \<in> fst ` set (triple_sup_of scenario_config scenario) \<and>
   (1, 2, 3) \<in> set (L3_of scenario_config scenario) \<and>
   (1 :: int) < 2 \<and> (1 :: int) < 3 \<and> (2 :: int) < 3"
proof -
  note T = canonical_form [OF scenario_distinct, of scenario_config]
  have m: "(1, 2) \<in> fst ` set (pair_sup_of scenario_config scenario)"
    "(1, 3) \<in> set (C2_of scenario_config scenario)"
    "(2, 3) \<in> set (L2_of scenario_config scenario)"
    "(1, 2, 3) \<in> set (C3_of scenario_config scenario)"
    "(1, 2, 3) \<in> fst ` set (triple_sup_of scenario_config scenario)"
    "(1, 2, 3) \<in> set (L3_of scenario_config scenario)"
    by (simp_all add: pipeline_defs scenario_L1 scenario_L2 scenario_C2 scenario_C3 scenario_L3)
  have c: "(1 :: int) < 2" "(1 :: int) < 3" "(2 :: int) < 3"
    using T [THEN conjunct1, rule_format, of "(1, 2)"] T [THEN conjunct1, rule_format, of "(1, 3)"]
      T [THEN conjunct1, rule_format, of "(2, 3)"] m
    by simp_all
  have "list_all distinct scenario" using scenario_distinct by (simp add: list_all_iff)
  with m c show ?thesis by (intro conjI)
qed

section \<open>The threshold of L1\<close>

lemma L1_member:
  "x \<in> set (L1_of cfg ts) \<longleftrightarrow> (\<exists>c. map_of (item_sup_of cfg ts) x = Some c \<and> MIN_SUPPORT cfg \<le> c)"
  unfolding pipeline_defs set_L1 by simp

lemma L1_member_getitem:
  assumes "0 < MIN_SUPPORT cfg"
  shows "x \<in> set (L1_of cfg ts) \<longleftrightarrow> MIN_SUPPORT cfg \<le> getitem (item_sup_of cfg ts) x"
  using assms by (auto simp: L1_member getitem_def split: option.splits)

text \<open>
  Claim C6 (L1 and the threshold). For a positive threshold, the \<open>L1\<close> of \<open>apriori_L1\<close>
  is sorted ascending without repetition and holds exactly the items whose counted
  support is at least \<open>MIN_SUPPORT\<close>: an item with support \<open>MIN_SUPPORT\<close> is in it, an
  item with support \<open>MIN_SUPPORT - 1\<close> is not. When the transactions are sets the counted
  support is the number of transactions that contain the item.
\<close>

theorem L1_sorted_threshold:
  assumes "0 < MIN_SUPPORT cfg"
  shows "sorted (L1_of cfg transactions) \<and> distinct (L1_of cfg transactions) \<and>
         (\<forall>x. x \<in> set (L1_of cfg transactions) \<longleftrightarrow>
            MIN_SUPPORT cfg \<le> getitem (item_sup_of cfg transactions) x) \<and>
         (\<forall>x. getitem (item_sup_of cfg transactions) x = MIN_SUPPORT cfg \<longrightarrow>
            x \<in> set (L1_of cfg transactions)) \<and>
         (\<forall>x. getitem (item_sup_of cfg transactions) x = MIN_SUPPORT cfg - 1 \<longrightarrow>
            x \<notin> set (L1_of cfg transactions)) \<and>
         ((\<forall>t \<in> set transactions. distinct t) \<longrightarrow>
            (\<forall>x. x \<in> set (L1_of cfg transactions) \<longleftrightarrow>
               MIN_SUPPORT cfg \<le> support transactions {x}))"
proof (intro conjI allI impI)
  show "sorted (L1_of cfg transactions)" by (simp add: L1_of_def sorted_L1)
  show "distinct (L1_of cfg transactions)" by (simp add: L1_of_def distinct_L1)
  show "x \<in> set (L1_of cfg transactions) \<longleftrightarrow>
          MIN_SUPPORT cfg \<le> getitem (item_sup_of cfg transactions) x" for x
    by (rule L1_member_getitem [OF assms])
  show "x \<in> set (L1_of cfg transactions)"
    if "getitem (item_sup_of cfg transactions) x = MIN_SUPPORT cfg" for x
    using that by (simp add: L1_member_getitem [OF assms])
  show "x \<notin> set (L1_of cfg transactions)"
    if "getitem (item_sup_of cfg transactions) x = MIN_SUPPORT cfg - 1" for x
    using that by (simp add: L1_member_getitem [OF assms])
  show "x \<in> set (L1_of cfg transactions) \<longleftrightarrow> MIN_SUPPORT cfg \<le> support transactions {x}"
    if "\<forall>t \<in> set transactions. distinct t" for x
    using getitem_item_sup [OF that, of cfg x]
    by (simp add: L1_member_getitem [OF assms] item_sup_of_def)
qed

lemma threshold_support:
  "getitem (item_sup_of module_config threshold_input) 1 = 100"
  "getitem (item_sup_of module_config threshold_input) 2 = 99"
proof -
  have d: "\<forall>t \<in> set threshold_input. distinct t" by (auto simp: threshold_input_def)
  show "getitem (item_sup_of module_config threshold_input) 1 = 100"
    unfolding item_sup_of_def getitem_item_sup [OF d]
    by (simp add: support_def threshold_input_def)
  show "getitem (item_sup_of module_config threshold_input) 2 = 99"
    unfolding item_sup_of_def getitem_item_sup [OF d]
    by (simp add: support_def threshold_input_def)
qed

theorem L1_sorted_threshold_witness:
  "0 < MIN_SUPPORT module_config \<and>
   getitem (item_sup_of module_config threshold_input) 1 = MIN_SUPPORT module_config \<and>
   1 \<in> set (L1_of module_config threshold_input) \<and>
   getitem (item_sup_of module_config threshold_input) 2 = MIN_SUPPORT module_config - 1 \<and>
   2 \<notin> set (L1_of module_config threshold_input)"
proof -
  have p: "0 < MIN_SUPPORT module_config" by (simp add: module_config_def)
  note T = L1_sorted_threshold [OF p, of threshold_input]
  have e1: "getitem (item_sup_of module_config threshold_input) 1 = MIN_SUPPORT module_config"
    unfolding threshold_support by (simp add: module_config_def)
  have e2: "getitem (item_sup_of module_config threshold_input) 2 = MIN_SUPPORT module_config - 1"
    unfolding threshold_support by (simp add: module_config_def)
  have i1: "1 \<in> set (L1_of module_config threshold_input)"
    using T [THEN conjunct2, THEN conjunct2, THEN conjunct2, THEN conjunct1, rule_format, OF e1] .
  have i2: "2 \<notin> set (L1_of module_config threshold_input)"
    using T [THEN conjunct2, THEN conjunct2, THEN conjunct2, THEN conjunct2, THEN conjunct1,
        rule_format, OF e2] .
  from p e1 i1 e2 i2 show ?thesis by (intro conjI)
qed

section \<open>Candidates without support\<close>

lemma support_pos_iff: "0 < support ts X \<longleftrightarrow> (\<exists>t \<in> set ts. X \<subseteq> set t)"
  by (auto simp: support_def filter_empty_conv)

lemma key_iff_map_of: "k \<in> fst ` set d \<longleftrightarrow> map_of d k \<noteq> None"
  by (simp add: map_of_eq_None_iff)

lemma pair_key_iff:
  assumes "\<forall>t \<in> set ts. distinct t"
  shows "(a, b) \<in> fst ` set (pair_sup_of cfg ts) \<longleftrightarrow>
           (a, b) \<in> set (C2_of cfg ts) \<and> 0 < support ts {a, b}"
proof -
  have "(a, b) \<in> set (C2_of cfg ts) \<Longrightarrow> a < b"
    unfolding pipeline_defs by (rule C2_canonical)
  then show ?thesis
    unfolding key_iff_map_of support_pos_iff
    unfolding pipeline_defs map_of_pair_sup [OF assms] set_apriori_L2_C2
    by auto
qed

lemma triple_key_iff:
  assumes "\<forall>t \<in> set ts. distinct t"
  shows "(x, y, z) \<in> fst ` set (triple_sup_of cfg ts) \<longleftrightarrow>
           (x, y, z) \<in> set (C3_of cfg ts) \<and> 0 < support ts {x, y, z}"
proof -
  have "(x, y, z) \<in> set (C3_of cfg ts) \<Longrightarrow> x < y \<and> y < z"
    unfolding pipeline_defs by (rule C3_canonical [OF assms])
  then show ?thesis
    unfolding key_iff_map_of support_pos_iff
    unfolding pipeline_defs map_of_triple_sup [OF assms]
    by auto
qed

lemma pair_sup_entry_positive:
  assumes "(p, c) \<in> set (fst (apriori_L2 cfg ts L1))"
  shows "0 < c"
proof -
  from assms have "map_of (fst (apriori_L2 cfg ts L1)) p = Some c"
    by (simp add: distinct_pair_sup)
  from pair_sup_positive [OF this] show ?thesis by simp
qed

lemma triple_sup_entry_positive:
  assumes "(tri, c) \<in> set (fst (apriori_L3 cfg ts C3))"
  shows "0 < c"
proof -
  from assms have "map_of (fst (apriori_L3 cfg ts C3)) tri = Some c"
    by (simp add: distinct_triple_sup)
  from triple_sup_positive [OF this] show ?thesis by simp
qed

text \<open>
  Claim C10 (no entry for zero support). In a run of the pipeline on transactions that
  are sets, a pair is a key of the pair-support mapping exactly when it is in \<open>C2\<close> and
  some transaction contains it, and a triple is a key of the triple-support mapping
  exactly when it is in \<open>C3\<close> and some transaction contains it; no recorded count is 0.
\<close>

theorem zero_support_absent:
  assumes "\<forall>t \<in> set transactions. distinct t"
  shows "(\<forall>a b. (a, b) \<in> fst ` set (pair_sup_of cfg transactions) \<longleftrightarrow>
            (a, b) \<in> set (C2_of cfg transactions) \<and> 0 < support transactions {a, b}) \<and>
         (\<forall>x y z. (x, y, z) \<in> fst ` set (triple_sup_of cfg transactions) \<longleftrightarrow>
            (x, y, z) \<in> set (C3_of cfg transactions) \<and> 0 < support transactions {x, y, z}) \<and>
         (\<forall>p c. (p, c) \<in> set (pair_sup_of cfg transactions) \<longrightarrow> 0 < c) \<and>
         (\<forall>tri c. (tri, c) \<in> set (triple_sup_of cfg transactions) \<longrightarrow> 0 < c)"
proof (intro conjI allI impI)
  show "(a, b) \<in> fst ` set (pair_sup_of cfg transactions) \<longleftrightarrow>
          (a, b) \<in> set (C2_of cfg transactions) \<and> 0 < support transactions {a, b}" for a b
    by (rule pair_key_iff [OF assms])
  show "(x, y, z) \<in> fst ` set (triple_sup_of cfg transactions) \<longleftrightarrow>
          (x, y, z) \<in> set (C3_of cfg transactions) \<and> 0 < support transactions {x, y, z}" for x y z
    by (rule triple_key_iff [OF assms])
  show "0 < c" if "(p, c) \<in> set (pair_sup_of cfg transactions)" for p c
    using that unfolding pipeline_defs
    by (rule pair_sup_entry_positive)
  show "0 < c" if "(tri, c) \<in> set (triple_sup_of cfg transactions)" for tri c
    using that unfolding pipeline_defs
    by (rule triple_sup_entry_positive)
qed

lemma sparse_distinct: "\<forall>t \<in> set sparse. distinct t"
  by (simp add: sparse_def)

lemma sparse_L1: "L1_of sparse_config sparse = [1, 2, 3, 4]"
  by code_simp

lemma sparse_C2: "C2_of sparse_config sparse = [(1, 2), (1, 3), (1, 4), (2, 3), (2, 4), (3, 4)]"
  by code_simp

lemma sparse_pair_sup: "pair_sup_of sparse_config sparse = [((1, 2), 1), ((1, 3), 1), ((2, 3), 1)]"
  by code_simp

lemma sparse_C3: "C3_of sparse_config sparse = [(1, 2, 3)]"
  by code_simp

lemma sparse_triple_sup: "triple_sup_of sparse_config sparse = []"
  by code_simp

theorem zero_support_absent_witness:
  "list_all distinct sparse \<and>
   (1, 4) \<in> set (C2_of sparse_config sparse) \<and> support sparse {1, 4} = 0 \<and>
   (1, 4) \<notin> fst ` set (pair_sup_of sparse_config sparse) \<and>
   (1, 2) \<in> set (C2_of sparse_config sparse) \<and> support sparse {1, 2} = 1 \<and>
   (1, 2) \<in> fst ` set (pair_sup_of sparse_config sparse) \<and>
   (1, 2, 3) \<in> set (C3_of sparse_config sparse) \<and> support sparse {1, 2, 3} = 0 \<and>
   (1, 2, 3) \<notin> fst ` set (triple_sup_of sparse_config sparse)"
proof -
  note T = zero_support_absent [OF sparse_distinct, of sparse_config]
  have s: "support sparse {1, 4} = 0" "support sparse {1, 2} = 1" "support sparse {1, 2, 3} = 0"
    by (simp_all add: support_def sparse_def)
  have m: "(1, 4) \<in> set (C2_of sparse_config sparse)" "(1, 2) \<in> set (C2_of sparse_config sparse)"
    "(1, 2, 3) \<in> set (C3_of sparse_config sparse)"
    by (simp_all add: sparse_C2 sparse_C3)
  have k1: "(1, 4) \<notin> fst ` set (pair_sup_of sparse_config sparse)"
    using T [THEN conjunct1, rule_format, of 1 4] s by simp
  have k2: "(1, 2) \<in> fst ` set (pair_sup_of sparse_config sparse)"
    using T [THEN conjunct1, rule_format, of 1 2] s m by simp
  have k3: "(1, 2, 3) \<notin> fst ` set (triple_sup_of sparse_config sparse)"
    using T [THEN conjunct2, THEN conjunct1, rule_format, of 1 2 3] s by simp
  have "list_all distinct sparse" using sparse_distinct by (simp add: list_all_iff)
  with s m k1 k2 k3 show ?thesis by (intro conjI)
qed

section \<open>Denominators of the confidences\<close>

lemma L2_item_sup:
  assumes "(a, b) \<in> set (L2_of cfg ts)" and "x = a \<or> x = b"
  shows "\<exists>c. map_of (item_sup_of cfg ts) x = Some c \<and> 0 < c \<and> MIN_SUPPORT cfg \<le> c"
proof -
  from assms(1) have "a \<in> set (L1_of cfg ts) \<and> b \<in> set (L1_of cfg ts)"
    unfolding L2_of_def by (rule L2_members_in_L1)
  with assms(2) have "x \<in> set (L1_of cfg ts)" by auto
  then obtain c where c: "map_of (item_sup_of cfg ts) x = Some c" "MIN_SUPPORT cfg \<le> c"
    unfolding L1_member by blast
  from c(1) have "1 \<le> c" unfolding item_sup_of_def by (rule item_sup_positive)
  with c show ?thesis by simp
qed

lemma L2_pair_sup:
  assumes "p \<in> set (L2_of cfg ts)"
  shows "\<exists>c. map_of (pair_sup_of cfg ts) p = Some c \<and> 0 < c \<and> MIN_SUPPORT cfg \<le> c"
proof -
  from assms obtain c where c: "map_of (pair_sup_of cfg ts) p = Some c" "MIN_SUPPORT cfg \<le> c"
    unfolding L2_of_def pair_sup_of_def set_L2 by blast
  from c(1) have "1 \<le> c" unfolding pair_sup_of_def by (rule pair_sup_positive)
  with c show ?thesis by simp
qed

lemma L3_pairs_in_L2:
  assumes "(x, y, z) \<in> set (L3_of cfg ts)"
  shows "(x, y) \<in> set (L2_of cfg ts) \<and> (x, z) \<in> set (L2_of cfg ts) \<and> (y, z) \<in> set (L2_of cfg ts)"
proof -
  from assms have "(x, y, z) \<in> set (C3_of cfg ts)"
    unfolding L3_of_def by (rule L3_subset_C3)
  then show ?thesis unfolding C3_of_def by (simp add: C3_prunedD)
qed

lemma denoms_d_pipeline:
  assumes "p \<in> set (L2_of cfg ts)"
  shows "denoms_d (item_sup_of cfg ts) p"
proof -
  obtain a b where p: "p = (a, b)" by (cases p)
  from L2_item_sup [of a b cfg ts a] L2_item_sup [of a b cfg ts b] assms
  show ?thesis by (auto simp: p getitem_def)
qed

lemma denoms_e_pipeline:
  assumes "tri \<in> set (L3_of cfg ts)"
  shows "denoms_e (pair_sup_of cfg ts) tri"
proof -
  obtain x y z where t: "tri = (x, y, z)" by (cases tri)
  from assms L3_pairs_in_L2 [of x y z cfg ts]
  have "(x, y) \<in> set (L2_of cfg ts)" "(x, z) \<in> set (L2_of cfg ts)" "(y, z) \<in> set (L2_of cfg ts)"
    by (simp_all add: t)
  from this [THEN L2_pair_sup] show ?thesis by (auto simp: t getitem_def)
qed

lemma top5_part_d_pipeline:
  "top5_part_d cfg (item_sup_of cfg ts) (pair_sup_of cfg ts) (L2_of cfg ts) =
     Inr (slice_to (sort_key key_d
       (concat (map (emit_d (item_sup_of cfg ts) (pair_sup_of cfg ts)) (L2_of cfg ts)))) (TOP_K cfg))"
  by (simp add: top5_part_d_def part_d_rules_eq denoms_d_pipeline)

lemma top5_part_e_pipeline:
  "top5_part_e cfg (pair_sup_of cfg ts) (triple_sup_of cfg ts) (L3_of cfg ts) =
     Inr (slice_to (sort_key key_e
       (concat (map (emit_e (pair_sup_of cfg ts) (triple_sup_of cfg ts)) (L3_of cfg ts)))) (TOP_K cfg))"
  by (simp add: top5_part_e_def part_e_rules_eq denoms_e_pipeline)

text \<open>
  Claim C3 (denominators). In a run of the pipeline, both items of every pair in \<open>L2\<close>
  have a recorded support that is positive and at least \<open>MIN_SUPPORT\<close>, the three
  2-subsets of every triple in \<open>L3\<close> have a recorded positive support, and neither
  \<open>top5_part_d\<close> nor \<open>top5_part_e\<close> raises \<open>ZeroDivisionError\<close>.
\<close>

theorem confidence_denominators:
  "(\<forall>(a, b) \<in> set (L2_of cfg transactions).
      (\<exists>c. map_of (item_sup_of cfg transactions) a = Some c \<and> 0 < c \<and> MIN_SUPPORT cfg \<le> c) \<and>
      (\<exists>c. map_of (item_sup_of cfg transactions) b = Some c \<and> 0 < c \<and> MIN_SUPPORT cfg \<le> c)) \<and>
   (\<forall>(x, y, z) \<in> set (L3_of cfg transactions).
      (\<exists>c. map_of (pair_sup_of cfg transactions) (x, y) = Some c \<and> 0 < c) \<and>
      (\<exists>c. map_of (pair_sup_of cfg transactions) (x, z) = Some c \<and> 0 < c) \<and>
      (\<exists>c. map_of (pair_sup_of cfg transactions) (y, z) = Some c \<and> 0 < c)) \<and>
   (\<exists>d_rules. top5_part_d cfg (item_sup_of cfg transactions) (pair_sup_of cfg transactions)
      (L2_of cfg transactions) = Inr d_rules) \<and>
   (\<exists>e_rules. top5_part_e cfg (pair_sup_of cfg transactions) (triple_sup_of cfg transactions)
      (L3_of cfg transactions) = Inr e_rules)"
proof (intro conjI ballI)
  fix p assume p: "p \<in> set (L2_of cfg transactions)"
  obtain a b where ab: "p = (a, b)" by (cases p)
  from p L2_item_sup [of a b cfg transactions a] L2_item_sup [of a b cfg transactions b]
  show "case p of (a, b) \<Rightarrow>
      (\<exists>c. map_of (item_sup_of cfg transactions) a = Some c \<and> 0 < c \<and> MIN_SUPPORT cfg \<le> c) \<and>
      (\<exists>c. map_of (item_sup_of cfg transactions) b = Some c \<and> 0 < c \<and> MIN_SUPPORT cfg \<le> c)"
    by (simp add: ab)
next
  fix tri assume t: "tri \<in> set (L3_of cfg transactions)"
  obtain x y z where xyz: "tri = (x, y, z)" by (cases tri)
  from t L3_pairs_in_L2 [of x y z cfg transactions]
  have "(x, y) \<in> set (L2_of cfg transactions)" "(x, z) \<in> set (L2_of cfg transactions)"
    "(y, z) \<in> set (L2_of cfg transactions)"
    by (simp_all add: xyz)
  from this [THEN L2_pair_sup]
  show "case tri of (x, y, z) \<Rightarrow>
      (\<exists>c. map_of (pair_sup_of cfg transactions) (x, y) = Some c \<and> 0 < c) \<and>
      (\<exists>c. map_of (pair_sup_of cfg transactions) (x, z) = Some c \<and> 0 < c) \<and>
      (\<exists>c. map_of (pair_sup_of cfg transactions) (y, z) = Some c \<and> 0 < c)"
    by (auto simp: xyz)
next
  show "\<exists>d_rules. top5_part_d cfg (item_sup_of cfg transactions) (pair_sup_of cfg transactions)
      (L2_of cfg transactions) = Inr d_rules"
    by (simp add: top5_part_d_pipeline)
  show "\<exists>e_rules. top5_part_e cfg (pair_sup_of cfg transactions) (triple_sup_of cfg transactions)
      (L3_of cfg transactions) = Inr e_rules"
    by (simp add: top5_part_e_pipeline)
qed

lemma scenario_pipeline:
  "item_sup_of scenario_config scenario = [(1, 4), (2, 4), (3, 4)]"
  "pair_sup_of scenario_config scenario = [((1, 2), 3), ((1, 3), 3), ((2, 3), 3)]"
  "L2_of scenario_config scenario = [(1, 2), (1, 3), (2, 3)]"
  "triple_sup_of scenario_config scenario = [((1, 2, 3), 2)]"
  "L3_of scenario_config scenario = [(1, 2, 3)]"
  by (simp_all add: pipeline_defs scenario_L1 scenario_L2 scenario_C3 scenario_L3)

text \<open>The results the specification expects on its scenario: every pair has support 3,
  the triple has support 2, and the rule \<open>(1, 2) \<Rightarrow> 3\<close> has confidence \<open>2 / 3\<close>.\<close>

lemma scenario_main:
  "main scenario_config scenario =
     Inr ([(3 / 4, 1, 2, 3), (3 / 4, 1, 3, 3), (3 / 4, 2, 1, 3), (3 / 4, 2, 3, 3), (3 / 4, 3, 1, 3)],
          [(2 / 3, (1, 2), 3, 2), (2 / 3, (1, 3), 2, 2), (2 / 3, (2, 3), 1, 2)])"
  by code_simp

theorem confidence_denominators_witness:
  "(1, 2) \<in> set (L2_of scenario_config scenario) \<and>
   (\<exists>c. map_of (item_sup_of scenario_config scenario) 1 = Some c \<and> 0 < c \<and>
      MIN_SUPPORT scenario_config \<le> c) \<and>
   (\<exists>c. map_of (item_sup_of scenario_config scenario) 2 = Some c \<and> 0 < c \<and>
      MIN_SUPPORT scenario_config \<le> c) \<and>
   (1, 2, 3) \<in> set (L3_of scenario_config scenario) \<and>
   (\<exists>c. map_of (pair_sup_of scenario_config scenario) (1, 2) = Some c \<and> 0 < c) \<and>
   (\<exists>c. map_of (pair_sup_of scenario_config scenario) (1, 3) = Some c \<and> 0 < c) \<and>
   (\<exists>c. map_of (pair_sup_of scenario_config scenario) (2, 3) = Some c \<and> 0 < c)"
proof -
  note T = confidence_denominators [of scenario_config scenario]
  have m2: "(1, 2) \<in> set (L2_of scenario_config scenario)"
    and m3: "(1, 2, 3) \<in> set (L3_of scenario_config scenario)"
    by (simp_all add: scenario_pipeline)
  from T [THEN conjunct1, rule_format, OF m2] T [THEN conjunct2, THEN conjunct1, rule_format, OF m3]
    m2 m3
  show ?thesis by simp
qed

section \<open>Degenerate inputs\<close>












section \<open>Configuration values\<close>

text \<open>
  Claim C8, as amended. The module sets \<open>MIN_SUPPORT = 100\<close> and \<open>TOP_K = 5\<close> and checks
  neither: for every configuration, also one with a non-positive value, \<open>main\<close> runs to
  the end and returns its two rule lists.
\<close>

theorem pipeline_total:
  "MIN_SUPPORT module_config = 100 \<and> TOP_K module_config = 5 \<and>
   (\<exists>d_rules e_rules. main cfg transactions = Inr (d_rules, e_rules))"
  by (simp add: module_config_def main_eq top5_part_d_pipeline top5_part_e_pipeline)

text \<open>
  Claim C8 as stated fails: with \<open>MIN_SUPPORT = 0\<close> and \<open>TOP_K = -1\<close> the pipeline runs on the
  scenario and returns rule lists (each without its last rule, as the slice
  \<^verbatim>\<open>rules[:-1]\<close> does); nothing is rejected.
\<close>

theorem config_not_rejected:
  "MIN_SUPPORT bad_config \<le> 0 \<and> TOP_K bad_config \<le> 0 \<and>
   main bad_config scenario =
     Inr ([(3 / 4, 1, 2, 3), (3 / 4, 1, 3, 3), (3 / 4, 2, 1, 3), (3 / 4, 2, 3, 3), (3 / 4, 3, 1, 3)],
          [(2 / 3, (1, 2), 3, 2), (2 / 3, (1, 3), 2, 2)])"
  by code_simp

section \<open>Ranking of the rules\<close>

lemma key_d_le_iff: "key_d r \<le> key_d r' \<longleftrightarrow> precedes_d r r'"
  by (cases r; cases r') (auto simp: key_d_def)

lemma key_e_le_iff: "key_e r \<le> key_e r' \<longleftrightarrow> precedes_e r r'"
  by (cases r; cases r') (auto simp: key_e_def)

lemma precedes_d_conf: "precedes_d r r' \<Longrightarrow> fst r' \<le> fst r"
  by (cases r; cases r') auto

lemma precedes_e_conf: "precedes_e r r' \<Longrightarrow> fst r' \<le> fst r"
  by (cases r; cases r') auto

lemma slice_to_nonneg: "0 \<le> k \<Longrightarrow> slice_to xs k = take (nat k) xs"
  by (simp add: slice_to_def)

text \<open>The first \<open>n\<close> elements of a list sorted by a key.\<close>

lemma take_sort_key:
  fixes f :: "'b \<Rightarrow> 'k::linorder"
  shows "length (take n (sort_key f xs)) = min n (length xs)"
    and "mset (take n (sort_key f xs)) \<subseteq># mset xs"
    and "sorted_wrt (\<lambda>r r'. f r \<le> f r') (take n (sort_key f xs))"
    and "\<forall>r \<in># mset xs - mset (take n (sort_key f xs)).
           \<forall>r' \<in> set (take n (sort_key f xs)). f r' \<le> f r"
proof -
  let ?S = "sort_key f xs"
  have split: "?S = take n ?S @ drop n ?S" by simp
  have m: "mset xs = mset (take n ?S) + mset (drop n ?S)"
    by (metis split mset_append mset_sort)
  show "length (take n ?S) = min n (length xs)" by (simp add: min.commute)
  show "mset (take n ?S) \<subseteq># mset xs" by (simp add: m)
  have s: "sorted_wrt (\<lambda>r r'. f r \<le> f r') ?S"
    using sorted_sort_key [of f xs] by (simp add: sorted_map)
  then have s': "sorted_wrt (\<lambda>r r'. f r \<le> f r') (take n ?S @ drop n ?S)" by simp
  then show "sorted_wrt (\<lambda>r r'. f r \<le> f r') (take n ?S)"
    unfolding sorted_wrt_append by simp
  from s' have "\<forall>r' \<in> set (take n ?S). \<forall>r \<in> set (drop n ?S). f r' \<le> f r"
    unfolding sorted_wrt_append by simp
  moreover have "mset xs - mset (take n ?S) = mset (drop n ?S)" by (simp add: m)
  ultimately show "\<forall>r \<in># mset xs - mset (take n ?S). \<forall>r' \<in> set (take n ?S). f r' \<le> f r"
    by auto
qed

text \<open>
  Claim C2 (top K). For a non-negative \<open>TOP_K\<close>, when the loop of \<open>top5_part_d\<close> emits the
  list \<open>rules\<close>, the function returns a list \<open>out\<close> of \<open>min TOP_K (length rules)\<close> of these
  rules, ordered by confidence descending, then left-hand item ascending, then
  right-hand item ascending (\<open>precedes_d\<close>), and every emitted rule left out comes after
  every returned rule in that order; so no left-out rule has a higher confidence than a
  returned one. The same holds for \<open>top5_part_e\<close>, where the left-hand pairs are compared
  by first item, then second item (\<open>precedes_e\<close>).
\<close>

theorem top_k_rules:
  assumes "0 \<le> TOP_K cfg"
  shows "(\<forall>rules. part_d_rules item_sup pair_sup L2 [] = Inr rules \<longrightarrow>
            (\<exists>out. top5_part_d cfg item_sup pair_sup L2 = Inr out \<and>
               length out = min (nat (TOP_K cfg)) (length rules) \<and>
               mset out \<subseteq># mset rules \<and>
               sorted_wrt precedes_d out \<and>
               (\<forall>r \<in># mset rules - mset out. \<forall>r' \<in> set out.
                  precedes_d r' r \<and> fst r \<le> fst r'))) \<and>
         (\<forall>rules. part_e_rules pair_sup triple_sup L3 [] = Inr rules \<longrightarrow>
            (\<exists>out. top5_part_e cfg pair_sup triple_sup L3 = Inr out \<and>
               length out = min (nat (TOP_K cfg)) (length rules) \<and>
               mset out \<subseteq># mset rules \<and>
               sorted_wrt precedes_e out \<and>
               (\<forall>r \<in># mset rules - mset out. \<forall>r' \<in> set out.
                  precedes_e r' r \<and> fst r \<le> fst r')))"
proof (intro conjI allI impI)
  fix rules :: "'a rule_d list"
  assume r: "part_d_rules item_sup pair_sup L2 [] = Inr rules"
  let ?out = "take (nat (TOP_K cfg)) (sort_key key_d rules)"
  note K = take_sort_key [where n = "nat (TOP_K cfg)" and f = key_d and xs = rules, unfolded key_d_le_iff]
  have "top5_part_d cfg item_sup pair_sup L2 = Inr ?out"
    by (simp add: top5_part_d_def r slice_to_nonneg [OF assms])
  moreover have "\<forall>r \<in># mset rules - mset ?out. \<forall>r' \<in> set ?out.
      precedes_d r' r \<and> fst r \<le> fst r'"
    using K(4) precedes_d_conf by blast
  ultimately show "\<exists>out. top5_part_d cfg item_sup pair_sup L2 = Inr out \<and>
      length out = min (nat (TOP_K cfg)) (length rules) \<and> mset out \<subseteq># mset rules \<and>
      sorted_wrt precedes_d out \<and>
      (\<forall>r \<in># mset rules - mset out. \<forall>r' \<in> set out. precedes_d r' r \<and> fst r \<le> fst r')"
    using K(1,2,3) by blast
next
  fix rules :: "'a rule_e list"
  assume r: "part_e_rules pair_sup triple_sup L3 [] = Inr rules"
  let ?out = "take (nat (TOP_K cfg)) (sort_key key_e rules)"
  note K = take_sort_key [where n = "nat (TOP_K cfg)" and f = key_e and xs = rules, unfolded key_e_le_iff]
  have "top5_part_e cfg pair_sup triple_sup L3 = Inr ?out"
    by (simp add: top5_part_e_def r slice_to_nonneg [OF assms])
  moreover have "\<forall>r \<in># mset rules - mset ?out. \<forall>r' \<in> set ?out.
      precedes_e r' r \<and> fst r \<le> fst r'"
    using K(4) precedes_e_conf by blast
  ultimately show "\<exists>out. top5_part_e cfg pair_sup triple_sup L3 = Inr out \<and>
      length out = min (nat (TOP_K cfg)) (length rules) \<and> mset out \<subseteq># mset rules \<and>
      sorted_wrt precedes_e out \<and>
      (\<forall>r \<in># mset rules - mset out. \<forall>r' \<in> set out. precedes_e r' r \<and> fst r \<le> fst r')"
    using K(1,2,3) by blast
qed

text \<open>When the itemsets are in canonical form, as the pipeline's are, left-hand and
  right-hand side alone identify an emitted rule: the ranking then is total whatever the
  value of the quotient.\<close>

lemma emitted_d_sides_determine_rule:
  fixes lhs :: "'a::linorder"
  assumes "\<forall>(a, b) \<in> set L2. a < b"
    and "(conf, lhs, rhs, s) \<in> set (concat (map (emit_d item_sup pair_sup) L2))"
    and "(conf', lhs, rhs, s') \<in> set (concat (map (emit_d item_sup pair_sup) L2))"
  shows "conf = conf' \<and> s = s'"
proof -
  from assms(2) obtain a b where p: "(a, b) \<in> set L2"
    "(conf, lhs, rhs, s) \<in> set (emit_d item_sup pair_sup (a, b))"
    by auto
  from assms(3) obtain a' b' where p': "(a', b') \<in> set L2"
    "(conf', lhs, rhs, s') \<in> set (emit_d item_sup pair_sup (a', b'))"
    by auto
  from assms(1) p(1) p'(1) have "a < b" "a' < b'" by auto
  with p(2) p'(2) show ?thesis by auto
qed

lemma emitted_e_sides_determine_rule:
  fixes rhs :: "'a::linorder"
  assumes "\<forall>(x, y, z) \<in> set L3. x < y \<and> y < z"
    and "(conf, lhs, rhs, s) \<in> set (concat (map (emit_e pair_sup triple_sup) L3))"
    and "(conf', lhs, rhs, s') \<in> set (concat (map (emit_e pair_sup triple_sup) L3))"
  shows "conf = conf' \<and> s = s'"
proof -
  from assms(2) obtain x y z where p: "(x, y, z) \<in> set L3"
    "(conf, lhs, rhs, s) \<in> set (emit_e pair_sup triple_sup (x, y, z))"
    by auto
  from assms(3) obtain x' y' z' where p': "(x', y', z') \<in> set L3"
    "(conf', lhs, rhs, s') \<in> set (emit_e pair_sup triple_sup (x', y', z'))"
    by auto
  from assms(1) p(1) p'(1) have "x < y" "y < z" "x' < y'" "y' < z'" by auto
  with p(2) p'(2) show ?thesis by auto
qed


lemma example_part_d_rules:
  "part_d_rules example_item_sup example_pair_sup example_L2 [] = Inr example_rules_d"
  by code_simp

lemma example_top5_part_d:
  "top5_part_d scenario_config example_item_sup example_pair_sup example_L2 = Inr example_top_d"
  by code_simp

lemma example_part_e_rules:
  "part_e_rules example_pair_sup example_triple_sup example_L3 [] = Inr example_rules_e"
  by code_simp

lemma example_top5_part_e:
  "top5_part_e scenario_config example_pair_sup example_triple_sup example_L3 = Inr example_top_e"
  by code_simp

theorem top_k_rules_witness:
  "0 \<le> TOP_K scenario_config \<and>
   part_d_rules example_item_sup example_pair_sup example_L2 [] = Inr example_rules_d \<and>
   top5_part_d scenario_config example_item_sup example_pair_sup example_L2 = Inr example_top_d \<and>
   length example_top_d = min (nat (TOP_K scenario_config)) (length example_rules_d) \<and>
   mset example_top_d \<subseteq># mset example_rules_d \<and>
   sorted_wrt precedes_d example_top_d \<and>
   part_e_rules example_pair_sup example_triple_sup example_L3 [] = Inr example_rules_e \<and>
   top5_part_e scenario_config example_pair_sup example_triple_sup example_L3 = Inr example_top_e \<and>
   length example_top_e = min (nat (TOP_K scenario_config)) (length example_rules_e) \<and>
   mset example_top_e \<subseteq># mset example_rules_e \<and>
   sorted_wrt precedes_e example_top_e"
proof -
  have k: "0 \<le> TOP_K scenario_config" by (simp add: scenario_config_def)
  note T = top_k_rules [OF k, of example_item_sup example_pair_sup example_L2
      example_triple_sup example_L3]
  from T [THEN conjunct1, rule_format, OF example_part_d_rules]
  have d: "length example_top_d = min (nat (TOP_K scenario_config)) (length example_rules_d) \<and>
      mset example_top_d \<subseteq># mset example_rules_d \<and> sorted_wrt precedes_d example_top_d"
    unfolding example_top5_part_d by auto
  from T [THEN conjunct2, rule_format, OF example_part_e_rules]
  have e: "length example_top_e = min (nat (TOP_K scenario_config)) (length example_rules_e) \<and>
      mset example_top_e \<subseteq># mset example_rules_e \<and> sorted_wrt precedes_e example_top_e"
    unfolding example_top5_part_e by auto
  from k example_part_d_rules example_top5_part_d d example_part_e_rules example_top5_part_e e
  show ?thesis by (intro conjI) simp_all
qed


end
